theory Spec2Isabelle
  imports Complex_Main "HOL-Library.Sublist"
begin

section \<open>Post-processing pipeline of the Little Plover River notebook\<close>

text \<open>
  The notebook \<^verbatim>\<open>05-Advanced-analysis-pandas-flopy.ipynb\<close> is a straight-line script over
  pandas and numpy objects.  Each cell that carries logic is embedded below as a function
  on lists: a column is a list of cells, a data frame a list of rows.  Python floats are
  embedded as rationals with \<open>None\<close> for NaN; the rounding of float arithmetic is not
  part of the embedding.
\<close>

subsection \<open>Stress-period resolver (the \<^verbatim>\<open>kstp\<close>/\<^verbatim>\<open>kper\<close> loop)\<close>

text \<open>
  \<^verbatim>\<open>
  kstp = []
  kper = []
  for i, nstp in enumerate(m.dis.nstp.array):
      for j in range(nstp):
          kstp.append(j)
          kper.append(i)
  \<close>
  \<^verbatim>\<open>range(n)\<close> is empty for \<open>n \<le> 0\<close>.  The loop state is the pair of lists.
\<close>

definition py_range :: "int \<Rightarrow> nat list" where
  "py_range n = [0..<nat n]"

fun inner_loop :: "nat \<Rightarrow> nat list \<Rightarrow> nat list \<times> nat list \<Rightarrow> nat list \<times> nat list" where
  "inner_loop i [] (kstp, kper) = (kstp, kper)"
| "inner_loop i (j # js) (kstp, kper) = inner_loop i js (kstp @ [j], kper @ [i])"

fun outer_loop :: "(nat \<times> int) list \<Rightarrow> nat list \<times> nat list \<Rightarrow> nat list \<times> nat list" where
  "outer_loop [] st = st"
| "outer_loop ((i, nstp) # rest) st = outer_loop rest (inner_loop i (py_range nstp) st)"

definition kstp_kper :: "int list \<Rightarrow> nat list \<times> nat list" where
  "kstp_kper nstp_array = outer_loop (enumerate 0 nstp_array) ([], [])"

text \<open>Row \<open>r\<close> of the output table is tagged with \<open>(kper ! r, kstp ! r)\<close>.\<close>

definition resolver :: "int list \<Rightarrow> (nat \<times> nat) list" where
  "resolver nstp_array = (case kstp_kper nstp_array of (kstp, kper) \<Rightarrow> zip kper kstp)"

text \<open>
  The specification's description of the same table: the ranges \<open>[0..nstp[i])\<close>, each
  tagged with its index \<open>i\<close>, flattened in order.
\<close>

definition flatten_ranges :: "int list \<Rightarrow> (nat \<times> nat) list" where
  "flatten_ranges nstp_array =
     concat (map (\<lambda>(i, n). map (\<lambda>j. (i, j)) [0..<nat n]) (enumerate 0 nstp_array))"

subsection \<open>Timestamps and the time mapper\<close>

text \<open>
  A pandas \<^verbatim>\<open>Timestamp\<close> is a count of nanoseconds since 1970-01-01T00:00:00, read in the
  proleptic Gregorian calendar; a \<^verbatim>\<open>Timedelta\<close> is a count of nanoseconds.  Both are
  embedded as integers, a missing one (NaT) as \<open>None\<close>.  \<open>days_from_civil\<close> and
  \<open>civil_from_days\<close> convert between a day count and a calendar date; \<open>Timestamp\<close>
  is the constructor from calendar fields and \<open>month_of\<close> the \<^verbatim>\<open>.month\<close> accessor.
\<close>

datatype pyerr = ValueError | OverflowError | IndexError

definition ns_per_day :: int where
  "ns_per_day = 86400000000000"

definition is_leap :: "int \<Rightarrow> bool" where
  "is_leap y = (y mod 4 = 0 \<and> (y mod 100 \<noteq> 0 \<or> y mod 400 = 0))"

definition days_in_month :: "int \<Rightarrow> int \<Rightarrow> int" where
  "days_in_month y m =
     (if m = 2 then (if is_leap y then 29 else 28)
      else if m = 4 \<or> m = 6 \<or> m = 9 \<or> m = 11 then 30 else 31)"

definition days_from_civil :: "int \<Rightarrow> int \<Rightarrow> int \<Rightarrow> int" where
  "days_from_civil y m d =
     (let y' = (if m \<le> 2 then y - 1 else y);
          era = y' div 400;
          yoe = y' mod 400;
          doy = (153 * (if m > 2 then m - 3 else m + 9) + 2) div 5 + d - 1;
          doe = yoe * 365 + yoe div 4 - yoe div 100 + doy
      in era * 146097 + doe - 719468)"

definition civil_from_days :: "int \<Rightarrow> int \<times> int \<times> int" where
  "civil_from_days z =
     (let z' = z + 719468;
          era = z' div 146097;
          doe = z' mod 146097;
          yoe = (doe - doe div 1460 + doe div 36524 - doe div 146096) div 365;
          doy = doe - (365 * yoe + yoe div 4 - yoe div 100);
          mp = (5 * doy + 2) div 153;
          d = doy - (153 * mp + 2) div 5 + 1;
          m = (if mp < 10 then mp + 3 else mp - 9);
          y = yoe + era * 400
      in (if m \<le> 2 then y + 1 else y, m, d))"

definition Timestamp :: "int \<Rightarrow> int \<Rightarrow> int \<Rightarrow> int \<Rightarrow> int \<Rightarrow> int \<Rightarrow> int" where
  "Timestamp y m d hh mm ss =
     days_from_civil y m d * ns_per_day + ((hh * 60 + mm) * 60 + ss) * 1000000000"

definition month_of :: "int \<Rightarrow> int" where
  "month_of ts = (case civil_from_days (ts div ns_per_day) of (y, m, d) \<Rightarrow> m)"

definition year_of :: "int \<Rightarrow> int" where
  "year_of ts = (case civil_from_days (ts div ns_per_day) of (y, m, d) \<Rightarrow> y)"

text \<open>
  \<^verbatim>\<open>
  start_ts = pd.Timestamp(start_datetime)
  ggo['datetime'] = pd.to_timedelta(ggo.time, unit='D') + start_ts
  \<close>
  \<^verbatim>\<open>to_timedelta\<close> on a float column multiplies each cell by the number of nanoseconds in
  the unit and casts to a 64-bit integer, which cuts the fraction of a nanosecond off
  (towards zero); NaN becomes NaT.  Adding the start timestamp is integer addition, checked
  against the 64-bit range (the smallest 64-bit value is the NaT marker).  The product is
  taken exactly here: the rounding of the float64 multiplication is outside the embedding.
  The cast of a product beyond the 64-bit range is not defined; the embedding reports it
  like the overflow of the addition.  (Later pandas releases first round the fraction of a
  day to nine decimals; the offsets evaluated below give the same result either way.)
\<close>

definition astype_int64 :: "rat \<Rightarrow> int" where
  "astype_int64 x = (if 0 \<le> x then \<lfloor>x\<rfloor> else \<lceil>x\<rceil>)"

definition to_timedelta_D :: "rat option \<Rightarrow> int option" where
  "to_timedelta_D cell = map_option (\<lambda>d. astype_int64 (of_int ns_per_day * d)) cell"

definition int64_ok :: "int option \<Rightarrow> bool" where
  "int64_ok cell = (case cell of None \<Rightarrow> True | Some n \<Rightarrow> - (2 ^ 63) < n \<and> n < 2 ^ 63)"

definition time_mapper :: "int \<Rightarrow> rat option list \<Rightarrow> pyerr + int option list" where
  "time_mapper start_ts col =
     (let deltas = map to_timedelta_D col;
          stamps = map (map_option (\<lambda>td. td + start_ts)) deltas
      in if list_all int64_ok deltas \<and> list_all int64_ok stamps then Inr stamps
         else Inl OverflowError)"


text \<open>
  \<^verbatim>\<open>
  pd.date_range('2014-03', '2015-01', freq='M')
  \<close>
  The month ends (at midnight) from \<open>start\<close> to \<open>stop\<close>, both included, for bounds that
  are dates at midnight.
\<close>

definition month_index :: "int \<Rightarrow> int" where
  "month_index ts = year_of ts * 12 + (month_of ts - 1)"

definition month_end :: "int \<Rightarrow> int" where
  "month_end k = (let y = k div 12; m = k mod 12 + 1 in Timestamp y m (days_in_month y m) 0 0 0)"

definition date_range_M :: "int \<Rightarrow> int \<Rightarrow> int list" where
  "date_range_M start stop =
     filter (\<lambda>t. start \<le> t \<and> t \<le> stop) (map month_end [month_index start..month_index stop])"

subsection \<open>Gage table and the last-step aggregator\<close>

text \<open>
  \<^verbatim>\<open>
  ggo = pd.read_csv(gagefile, ..., names=['time', 'stage', 'flow'])
  ggo['datetime'] = pd.to_timedelta(ggo.time, unit='D') + start_ts
  ggo['kstp'] = kstp
  ggo['kper'] = kper
  \<close>
  A row of \<^verbatim>\<open>ggo\<close>.  The float columns and the timestamp column can hold a missing
  cell (NaN, NaT), written \<open>None\<close>; \<^verbatim>\<open>kstp\<close> and \<^verbatim>\<open>kper\<close> are filled from Python lists
  of integers.
\<close>

record ggo_row =
  time :: "rat option"
  stage :: "rat option"
  flow :: "rat option"
  datetime :: "int option"
  kstp :: nat
  kper :: nat
















subsection \<open>Observed flows: quantile filter, monthly averager, alignment\<close>

text \<open>
  \<^verbatim>\<open>
  df = pd.read_csv(gage_data_url, skiprows=30, header=None, sep='\t')
  df.index = pd.to_datetime(df[2])
  \<close>
  The series \<^verbatim>\<open>df[4]\<close> is a list of (index timestamp, flow) cells in file order.
\<close>

type_synonym series = "(int option \<times> rat option) list"

text \<open>
  \<^verbatim>\<open>
  qthresh = 0.5
  quant = df[4].quantile(qthresh)
  \<close>
  \<^verbatim>\<open>Series.quantile\<close> refuses a \<open>q\<close> outside \<open>[0, 1]\<close>, drops the missing cells, and
  interpolates linearly between the two order statistics around position \<open>q * (n - 1)\<close> of
  the sorted values; with no value left the result is NaN.
\<close>

definition valid_cells :: "rat option list \<Rightarrow> rat list" where
  "valid_cells col = List.map_filter (\<lambda>c. c) col"

definition percentile_linear :: "rat list \<Rightarrow> rat \<Rightarrow> rat" where
  "percentile_linear xs q =
     (let s = sort xs;
          n = length s;
          pos = q * of_nat (n - 1);
          lo = nat \<lfloor>pos\<rfloor>;
          hi = min (lo + 1) (n - 1);
          w = pos - of_nat lo
      in s ! lo + (s ! hi - s ! lo) * w)"

definition quantile :: "rat option list \<Rightarrow> rat \<Rightarrow> pyerr + rat option" where
  "quantile col q =
     (if q < 0 \<or> 1 < q then Inl ValueError
      else let xs = valid_cells col
           in if xs = [] then Inr None else Inr (Some (percentile_linear xs q)))"

text \<open>
  The specification's quantile, in its own words: with \<open>h = (n - 1) q\<close> and
  \<open>x\<close> the values in ascending order, \<open>x[floor h] + (h - floor h) (x[ceil h] - x[floor h])\<close>.
\<close>

definition spec_quantile :: "rat list \<Rightarrow> rat \<Rightarrow> rat" where
  "spec_quantile xs q =
     (let x = sort xs; h = of_nat (length xs - 1) * q
      in x ! nat \<lfloor>h\<rfloor> + (h - of_int \<lfloor>h\<rfloor>) * (x ! nat \<lceil>h\<rceil> - x ! nat \<lfloor>h\<rfloor>))"

text \<open>
  \<^verbatim>\<open>
  dfq = df[4].loc[df[4] < quant]
  \<close>
  A comparison with NaN on either side is false.
\<close>

definition float_less :: "rat option \<Rightarrow> rat option \<Rightarrow> bool" where
  "float_less a b = (case (a, b) of (Some x, Some y) \<Rightarrow> x < y | _ \<Rightarrow> False)"

definition below_quantile :: "series \<Rightarrow> rat option \<Rightarrow> series" where
  "below_quantile s quant = filter (\<lambda>(t, v). float_less v quant) s"

text \<open>
  \<^verbatim>\<open>
  dfm = dfq.groupby(dfq.index.month).mean()
  \<close>
  The group key of a row is the month number of its index timestamp; a row whose key is
  missing belongs to no group.  One pass adds each row's value to the sum and the count of
  its group (a missing value adds nothing); the result lists the groups in ascending key
  order with sum / count, or NaN for a group that counted nothing.
\<close>

definition month_key :: "int option \<times> rat option \<Rightarrow> int option" where
  "month_key row = map_option month_of (fst row)"

definition add_to_group :: "(rat \<times> nat) option \<Rightarrow> rat option \<Rightarrow> rat \<times> nat" where
  "add_to_group old v =
     (case old of None \<Rightarrow> (case v of None \<Rightarrow> (0, 0) | Some x \<Rightarrow> (x, 1))
      | Some (sm, cnt) \<Rightarrow> (case v of None \<Rightarrow> (sm, cnt) | Some x \<Rightarrow> (sm + x, cnt + 1)))"

fun group_sums :: "(int \<rightharpoonup> rat \<times> nat) \<Rightarrow> series \<Rightarrow> (int \<rightharpoonup> rat \<times> nat)" where
  "group_sums acc [] = acc"
| "group_sums acc (row # rest) =
     (case month_key row of
        None \<Rightarrow> group_sums acc rest
      | Some k \<Rightarrow> group_sums (acc(k \<mapsto> add_to_group (acc k) (snd row))) rest)"

definition mean_cell :: "rat \<times> nat \<Rightarrow> rat option" where
  "mean_cell sc = (case sc of (sm, cnt) \<Rightarrow> if cnt = 0 then None else Some (sm / of_nat cnt))"

definition groupby_month_mean :: "series \<Rightarrow> (int \<times> rat option) list" where
  "groupby_month_mean s =
     (let acc = group_sums Map.empty s
      in List.map_filter (\<lambda>k. map_option (\<lambda>sc. (k, mean_cell sc)) (acc k))
           (sort (remdups (List.map_filter month_key s))))"

text \<open>The two cells together: from \<^verbatim>\<open>df[4]\<close> and \<^verbatim>\<open>qthresh\<close> to \<^verbatim>\<open>dfm\<close>.\<close>

definition monthly_low_flow :: "series \<Rightarrow> rat \<Rightarrow> pyerr + (int \<times> rat option) list" where
  "monthly_low_flow s qthresh =
     (case quantile (map snd s) qthresh of
        Inl e \<Rightarrow> Inl e
      | Inr quant \<Rightarrow> Inr (groupby_month_mean (below_quantile s quant)))"

text \<open>Vocabulary for the statements: the values of one month, and their arithmetic mean.\<close>

definition month_values :: "int \<Rightarrow> series \<Rightarrow> rat list" where
  "month_values k s = valid_cells (map snd (filter (\<lambda>row. month_key row = Some k) s))"

definition mean :: "rat list \<Rightarrow> rat" where
  "mean xs = sum_list xs / of_nat (length xs)"

text \<open>
  \<^verbatim>\<open>
  dfm.index = pd.date_range('2014-03', '2015-01', freq='M')
  \<close>
  Assigning an index replaces the keys by position and raises \<^verbatim>\<open>ValueError\<close> (length
  mismatch) unless the new index has as many entries as the series has rows.
\<close>

definition set_index :: "'k list \<Rightarrow> ('j \<times> 'v) list \<Rightarrow> pyerr + ('k \<times> 'v) list" where
  "set_index new_index s =
     (if length new_index \<noteq> length s then Inl ValueError else Inr (zip new_index (map snd s)))"

definition anchor_dates :: "int list" where
  "anchor_dates = date_range_M (Timestamp 2014 3 1 0 0 0) (Timestamp 2015 1 1 0 0 0)"

definition align :: "(int \<times> rat option) list \<Rightarrow> pyerr + (int \<times> rat option) list" where
  "align dfm = set_index anchor_dates dfm"

text \<open>Ten observed flows, 1 to 10, over four calendar months and two years.\<close>

definition observed_example :: series where
  "observed_example =
     [(Some (Timestamp 2013 2 10 0 0 0), Some 1), (Some (Timestamp 2014 1 5 0 0 0), Some 2),
      (Some (Timestamp 2014 1 20 0 0 0), Some 3), (Some (Timestamp 2014 2 3 0 0 0), Some 4),
      (Some (Timestamp 2014 2 17 0 0 0), Some 5), (Some (Timestamp 2014 3 1 0 0 0), Some 6),
      (Some (Timestamp 2014 3 2 0 0 0), Some 7), (Some (Timestamp 2014 3 3 0 0 0), Some 8),
      (Some (Timestamp 2014 4 1 0 0 0), Some 9), (Some (Timestamp 2014 4 2 0 0 0), Some 10)]"

subsection \<open>Streamflow-routing output: segment filters and the flux map\<close>

text \<open>
  \<^verbatim>\<open>
  sfrdata = sfrobj.df.copy()
  rd = pd.DataFrame(m.sfr.reach_data)
  \<close>
  The columns of the two tables that the notebook reads.  The grid indices \<^verbatim>\<open>i\<close> and
  \<^verbatim>\<open>j\<close> of the source are the fields \<open>row_i\<close> and \<open>col_j\<close>.
\<close>

record sfr_row =
  segment :: int
  kstpkper :: "int \<times> int"
  row_i :: int
  col_j :: int
  Qout :: "rat option"
  Qaquifer :: "rat option"

record reach_row =
  iseg :: int
  rchlen :: "rat option"

text \<open>
  \<^verbatim>\<open>
  seg11 = sfrdata.loc[(sfrdata.segment == 11) & (sfrdata.kstpkper == (4, 6)),
                      ['Qout', 'Qaquifer']]
  dist = rd.loc[rd.iseg == 11, 'rchlen'].cumsum().tolist()
  \<close>
  Selection by a boolean mask keeps the rows where the mask holds, in order.  The segment
  id and the (step, period) pair are parameters here; the notebook passes 11 and (4, 6)
  (\<open>seg11\<close>, and \<open>dist_seg11\<close> for the source's \<^verbatim>\<open>dist\<close>).
  \<^verbatim>\<open>cumsum\<close> skips a missing cell and leaves it missing.
\<close>

definition select_segment :: "sfr_row list \<Rightarrow> int \<Rightarrow> int \<times> int \<Rightarrow> (rat option \<times> rat option) list" where
  "select_segment sfrdata seg kk =
     map (\<lambda>r. (Qout r, Qaquifer r)) (filter (\<lambda>r. segment r = seg \<and> kstpkper r = kk) sfrdata)"

fun cumsum_from :: "rat \<Rightarrow> rat option list \<Rightarrow> rat option list" where
  "cumsum_from acc [] = []"
| "cumsum_from acc (None # cs) = None # cumsum_from acc cs"
| "cumsum_from acc (Some x # cs) = Some (acc + x) # cumsum_from (acc + x) cs"

definition reach_distances :: "reach_row list \<Rightarrow> int \<Rightarrow> rat option list" where
  "reach_distances rd seg = cumsum_from 0 (map rchlen (filter (\<lambda>r. iseg r = seg) rd))"

definition seg11 :: "sfr_row list \<Rightarrow> (rat option \<times> rat option) list" where
  "seg11 sfrdata = select_segment sfrdata 11 (4, 6)"

definition dist_seg11 :: "reach_row list \<Rightarrow> rat option list" where
  "dist_seg11 rd = reach_distances rd 11"

text \<open>
  \<^verbatim>\<open>
  arr = np.zeros((m.nrow, m.ncol), dtype=float) * np.nan
  i = sfrdata.loc[sfrdata.kstpkper == (4, 6), 'i']
  j = sfrdata.loc[sfrdata.kstpkper == (4, 6), 'j']
  qgw = sfrdata.loc[sfrdata.kstpkper == (4, 6), 'Qaquifer']
  arr[i, j] = qgw
  \<close>
  The array is a list of rows of cells, NaN being \<open>None\<close>.  Assignment through index
  arrays checks every index against the shape (a negative index counts from the end,
  anything else out of range raises \<^verbatim>\<open>IndexError\<close>) and then writes the values.  The
  embedding writes them in order; numpy leaves open which value a cell named twice ends up
  with, and nothing below depends on it.
\<close>

definition nan_array :: "nat \<Rightarrow> nat \<Rightarrow> rat option list list" where
  "nan_array nrow ncol = replicate nrow (replicate ncol None)"

definition norm_index :: "nat \<Rightarrow> int \<Rightarrow> nat option" where
  "norm_index n k =
     (if 0 \<le> k \<and> k < int n then Some (nat k)
      else if - int n \<le> k \<and> k < 0 then Some (nat (k + int n))
      else None)"

fun assign_cells :: "rat option list list \<Rightarrow> (nat \<times> nat \<times> rat option) list \<Rightarrow> rat option list list" where
  "assign_cells arr [] = arr"
| "assign_cells arr ((r, c, v) # rest) = assign_cells (arr[r := (arr ! r)[c := v]]) rest"

fun norm_targets :: "nat \<Rightarrow> nat \<Rightarrow> (int \<times> int \<times> rat option) list \<Rightarrow> (nat \<times> nat \<times> rat option) list option" where
  "norm_targets nrow ncol [] = Some []"
| "norm_targets nrow ncol ((i, j, v) # rest) =
     (case (norm_index nrow i, norm_index ncol j, norm_targets nrow ncol rest) of
        (Some r, Some c, Some ts) \<Rightarrow> Some ((r, c, v) # ts)
      | _ \<Rightarrow> None)"

definition flux_array :: "nat \<Rightarrow> nat \<Rightarrow> sfr_row list \<Rightarrow> int \<times> int \<Rightarrow> pyerr + rat option list list" where
  "flux_array nrow ncol sfrdata kk =
     (let sel = filter (\<lambda>r. kstpkper r = kk) sfrdata
      in case norm_targets nrow ncol (map (\<lambda>r. (row_i r, col_j r, Qaquifer r)) sel) of
           None \<Rightarrow> Inl IndexError
         | Some ts \<Rightarrow> Inr (assign_cells (nan_array nrow ncol) ts))"

text \<open>
  \<^verbatim>\<open>
  losing = arr.copy()
  losing[losing <= 0] = np.nan
  gaining = arr.copy()
  gaining[gaining >= 0] = np.nan
  \<close>
  A comparison with NaN is false, so a NaN cell is not selected by either mask (and stays
  NaN).
\<close>

definition mask_to_nan :: "(rat \<Rightarrow> bool) \<Rightarrow> rat option list list \<Rightarrow> rat option list list" where
  "mask_to_nan P arr =
     map (map (\<lambda>cell. case cell of None \<Rightarrow> None | Some x \<Rightarrow> if P x then None else Some x)) arr"

definition losing :: "rat option list list \<Rightarrow> rat option list list" where
  "losing arr = mask_to_nan (\<lambda>x. x \<le> 0) arr"

definition gaining :: "rat option list list \<Rightarrow> rat option list list" where
  "gaining arr = mask_to_nan (\<lambda>x. x \<ge> 0) arr"

text \<open>
  A small reach table: fluxes 3, -2 and 0 in three cells of a 2 x 2 grid at (step,
  period) (4, 6), and one row of another time step.
\<close>

definition sfr_example :: "sfr_row list" where
  "sfr_example =
     [\<lparr>segment = 11, kstpkper = (4, 6), row_i = 0, col_j = 0, Qout = Some 5, Qaquifer = Some 3\<rparr>,
      \<lparr>segment = 11, kstpkper = (4, 6), row_i = 0, col_j = 1, Qout = Some 7, Qaquifer = Some (- 2)\<rparr>,
      \<lparr>segment = 12, kstpkper = (4, 6), row_i = 1, col_j = 0, Qout = Some 7, Qaquifer = Some 0\<rparr>,
      \<lparr>segment = 12, kstpkper = (0, 0), row_i = 1, col_j = 1, Qout = Some 1, Qaquifer = Some 9\<rparr>]"

subsection \<open>Resolver: proofs\<close>

lemma inner_loop_append:
  "inner_loop i js (ks, kp) = (ks @ js, kp @ replicate (length js) i)"
proof (induction js arbitrary: ks kp)
  case Nil
  show ?case by simp
next
  case (Cons j js)
  show ?case by (simp add: Cons.IH replicate_app_Cons_same)
qed

lemma outer_loop_append:
  "outer_loop ps (ks, kp) =
     (ks @ concat (map (\<lambda>(i, n). py_range n) ps),
      kp @ concat (map (\<lambda>(i, n). replicate (length (py_range n)) i) ps))"
proof (induction ps arbitrary: ks kp)
  case Nil
  show ?case by simp
next
  case (Cons p ps)
  obtain i n where p: "p = (i, n)" by (cases p)
  show ?case by (simp add: p inner_loop_append Cons.IH)
qed

lemma zip_concat_tagged:
  "zip (concat (map (\<lambda>(i, n). replicate (length (py_range n)) i) ps))
       (concat (map (\<lambda>(i, n). py_range n) ps))
   = concat (map (\<lambda>(i, n). map (\<lambda>j. (i, j)) [0..<nat n]) ps)"
proof (induction ps)
  case Nil
  show ?case by simp
next
  case (Cons p ps)
  obtain i n where p: "p = (i, n)" by (cases p)
  have "zip (replicate (length (py_range n)) i) (py_range n) = map (\<lambda>j. (i, j)) [0..<nat n]"
    by (simp add: py_range_def zip_replicate1)
  then show ?case using Cons.IH by (simp add: p zip_append)
qed

lemma resolver_flatten: "resolver nstp_array = flatten_ranges nstp_array"
  by (simp add: resolver_def kstp_kper_def outer_loop_append zip_concat_tagged flatten_ranges_def)

lemma kstp_kper_lengths:
  "length (fst (kstp_kper nstp_array)) = length (snd (kstp_kper nstp_array))"
  by (simp add: kstp_kper_def outer_loop_append length_concat comp_def case_prod_unfold)

lemma length_flatten_from:
  "int (length (concat (map (\<lambda>(i, n). map (\<lambda>j. (i, j)) [0..<nat n]) (enumerate k ns))))
     = sum_list (map (max 0) ns)"
  by (induction ns arbitrary: k) auto

lemma sum_list_nonneg_max: "\<forall>n \<in> set ns. (0::int) \<le> n \<Longrightarrow> sum_list (map (max 0) ns) = sum_list ns"
  by (induction ns) auto

lemma filter_flatten_from:
  "filter (\<lambda>(p, s). p = i) (concat (map (\<lambda>(i, n). map (\<lambda>j. (i, j)) [0..<nat n]) (enumerate k ns)))
     = (if k \<le> i \<and> i < k + length ns then map (\<lambda>j. (i, j)) [0..<nat (ns ! (i - k))] else [])"
proof (induction ns arbitrary: k)
  case Nil
  show ?case by simp
next
  case (Cons n ns)
  have same: "filter (\<lambda>(p, s). p = i) (map (\<lambda>j. (k, j)) [0..<nat n])
                = (if i = k then map (\<lambda>j. (k, j)) [0..<nat n] else [])"
    by (induction "nat n" arbitrary: n) (auto simp: filter_empty_conv)
  show ?case
  proof (cases "i = k")
    case True
    have "filter (\<lambda>(p, s). p = i)
            (concat (map (\<lambda>(i, n). map (\<lambda>j. (i, j)) [0..<nat n]) (enumerate (Suc k) ns))) = []"
      by (subst Cons.IH) (simp add: True)
    then show ?thesis using True by (simp add: same)
  next
    case False
    then have "(k \<le> i \<and> i < k + length (n # ns)) = (Suc k \<le> i \<and> i < Suc k + length ns)"
      by auto
    moreover have "k < i \<Longrightarrow> (n # ns) ! (i - k) = ns ! (i - Suc k)"
      by (simp add: nth_Cons' Suc_diff_Suc)
    ultimately show ?thesis using False by (auto simp: same Cons.IH)
  qed
qed

subsection \<open>Resolver: the claim\<close>

text \<open>
  C1.  For a sequence of step counts (none negative) the resolver fills both lists with
  \<open>sum nstp\<close> entries, the rows are the flattened tagged ranges \<open>[0..nstp[i])\<close> in order,
  and the rows carrying period \<open>i\<close> are exactly \<open>(i,0), ..., (i, nstp[i] - 1)\<close>: the step
  restarts at 0 in every period, a period of zero steps has no row, and later periods keep
  their own index.
\<close>

theorem resolver_unfolds_step_counts:
  assumes "\<forall>n \<in> set nstp_array. 0 \<le> n"
  shows "int (length (resolver nstp_array)) = sum_list nstp_array
    \<and> int (length (fst (kstp_kper nstp_array))) = sum_list nstp_array
    \<and> int (length (snd (kstp_kper nstp_array))) = sum_list nstp_array
    \<and> resolver nstp_array = flatten_ranges nstp_array
    \<and> (\<forall>i < length nstp_array.
           filter (\<lambda>(p, s). p = i) (resolver nstp_array)
             = map (\<lambda>j. (i, j)) [0..<nat (nstp_array ! i)])
    \<and> (\<forall>i < length nstp_array. nstp_array ! i = 0 \<longrightarrow> i \<notin> fst ` set (resolver nstp_array))"
proof -
  have len: "int (length (flatten_ranges nstp_array)) = sum_list nstp_array"
    using assms by (simp add: flatten_ranges_def length_flatten_from sum_list_nonneg_max)
  have 1: "int (length (resolver nstp_array)) = sum_list nstp_array"
    using len by (simp add: resolver_flatten)
  have "length (resolver nstp_array) = length (fst (kstp_kper nstp_array))"
    using kstp_kper_lengths [of nstp_array]
    by (simp add: resolver_def case_prod_unfold)
  then have 2: "int (length (fst (kstp_kper nstp_array))) = sum_list nstp_array"
    and 3: "int (length (snd (kstp_kper nstp_array))) = sum_list nstp_array"
    using 1 kstp_kper_lengths [of nstp_array] by simp_all
  have per: "\<forall>i < length nstp_array.
           filter (\<lambda>(p, s). p = i) (resolver nstp_array)
             = map (\<lambda>j. (i, j)) [0..<nat (nstp_array ! i)]"
    by (simp add: resolver_flatten flatten_ranges_def filter_flatten_from)
  have zero: "\<forall>i < length nstp_array. nstp_array ! i = 0 \<longrightarrow> i \<notin> fst ` set (resolver nstp_array)"
  proof (intro allI impI)
    fix i assume i: "i < length nstp_array" and z: "nstp_array ! i = 0"
    from per i z have "filter (\<lambda>(p, s). p = i) (resolver nstp_array) = []" by simp
    then show "i \<notin> fst ` set (resolver nstp_array)"
      by (auto simp: filter_empty_conv)
  qed
  from 1 2 3 per zero resolver_flatten show ?thesis by blast
qed

theorem resolver_unfolds_step_counts_witness:
  "(0::int) \<le> 2 \<and> (0::int) \<le> 3
   \<and> resolver [2, 3] = [(0, 0), (0, 1), (1, 0), (1, 1), (1, 2)]
   \<and> int (length (resolver [2, 3])) = 5
   \<and> resolver [2, 0, 3] = [(0, 0), (0, 1), (2, 0), (2, 1), (2, 2)]"
proof -
  have h: "\<forall>n \<in> set [2, 3 :: int]. 0 \<le> n" by simp
  have h': "\<forall>n \<in> set [2, 0, 3 :: int]. 0 \<le> n" by simp
  have e: "flatten_ranges [2, 3] = [(0, 0), (0, 1), (1, 0), (1, 1), (1, 2)]"
    by (simp add: flatten_ranges_def enumerate_eq_zip upt_conv_Cons)
  have e': "flatten_ranges [2, 0, 3] = [(0, 0), (0, 1), (2, 0), (2, 1), (2, 2)]"
    by (simp add: flatten_ranges_def enumerate_eq_zip upt_conv_Cons)
  show ?thesis
    using resolver_unfolds_step_counts [OF h] resolver_unfolds_step_counts [OF h'] e e' by simp
qed

subsection \<open>Calendar: checks\<close>

text \<open>
  The day-count conversions agree with the month lengths on every day of 2014, the year
  of the simulation, and on some dates around leap days and the epoch.
\<close>

lemma calendar_2014:
  "map civil_from_days [days_from_civil 2014 1 1..days_from_civil 2014 12 31]
     = concat (map (\<lambda>m. map (\<lambda>d. (2014, m, d)) [1..days_in_month 2014 m]) [1..12])"
  by code_simp

lemma calendar_spot_checks:
  "Timestamp 1970 1 1 0 0 0 = 0
   \<and> Timestamp 2014 1 1 0 0 0 = 1388534400 * 1000000000
   \<and> civil_from_days (- 1) = (1969, 12, 31)
   \<and> civil_from_days (days_from_civil 2000 2 28 + 1) = (2000, 2, 29)
   \<and> civil_from_days (days_from_civil 1900 2 28 + 1) = (1900, 3, 1)
   \<and> civil_from_days (days_from_civil 2016 2 29) = (2016, 2, 29)"
  by code_simp

subsection \<open>Last-step aggregator: proofs\<close>








lemma map_filter_all_Some:
  "\<forall>x \<in> set xs. f x = Some (g x) \<Longrightarrow> List.map_filter f xs = map g xs"
  by (induction xs) (auto simp: List.map_filter_simps)















subsection \<open>Quantile filter and monthly averager: proofs\<close>

lemma valid_cells_simps:
  "valid_cells [] = []"
  "valid_cells (None # cs) = valid_cells cs"
  "valid_cells (Some x # cs) = x # valid_cells cs"
  by (simp_all add: valid_cells_def List.map_filter_simps)

lemma percentile_linear_spec:
  assumes q: "0 \<le> q" "q \<le> 1" and ne: "xs \<noteq> []"
  shows "percentile_linear xs q = spec_quantile xs q"
proof -
  let ?n = "length xs"
  let ?h = "of_nat (?n - 1) * q :: rat"
  let ?s = "sort xs"
  have h0: "0 \<le> ?h" using q by simp
  have h1: "?h \<le> of_nat (?n - 1)" using q by (simp add: mult_left_le)
  have fl: "of_nat (nat \<lfloor>?h\<rfloor>) = (of_int \<lfloor>?h\<rfloor> :: rat)" using h0 by simp
  have pl: "percentile_linear xs q
      = ?s ! nat \<lfloor>?h\<rfloor> + (?s ! min (nat \<lfloor>?h\<rfloor> + 1) (?n - 1) - ?s ! nat \<lfloor>?h\<rfloor>) * (?h - of_int \<lfloor>?h\<rfloor>)"
    unfolding percentile_linear_def Let_def fl [symmetric] by (simp add: mult.commute)
  have sp: "spec_quantile xs q
      = ?s ! nat \<lfloor>?h\<rfloor> + (?h - of_int \<lfloor>?h\<rfloor>) * (?s ! nat \<lceil>?h\<rceil> - ?s ! nat \<lfloor>?h\<rfloor>)"
    unfolding spec_quantile_def Let_def by simp
  show ?thesis
  proof (cases "?h = of_int \<lfloor>?h\<rfloor>")
    case True
    then have "?h - of_int \<lfloor>?h\<rfloor> = 0" by simp
    then show ?thesis unfolding pl sp by simp
  next
    case False
    then have c: "\<lceil>?h\<rceil> = \<lfloor>?h\<rfloor> + 1" by (subst ceiling_altdef) simp
    have "\<lfloor>?h\<rfloor> < int (?n - 1)"
    proof (rule ccontr)
      assume "\<not> \<lfloor>?h\<rfloor> < int (?n - 1)"
      then have "int (?n - 1) \<le> \<lfloor>?h\<rfloor>" by linarith
      then have "(of_int (int (?n - 1)) :: rat) \<le> ?h" using le_floor_iff by blast
      with h1 have "?h = of_int (int (?n - 1))" by simp
      then have "?h = of_int \<lfloor>?h\<rfloor>" by (metis floor_of_int)
      with False show False by simp
    qed
    then have lt: "nat \<lfloor>?h\<rfloor> + 1 \<le> ?n - 1" using h0 by linarith
    have hi: "nat \<lceil>?h\<rceil> = nat \<lfloor>?h\<rfloor> + 1" unfolding c using h0 by (simp add: nat_add_distrib)
    have mn: "min (nat \<lfloor>?h\<rfloor> + 1) (?n - 1) = nat \<lfloor>?h\<rfloor> + 1"
      by (rule min.absorb1) (rule lt)
    show ?thesis unfolding pl sp hi mn by (simp add: algebra_simps)
  qed
qed

lemma quantile_spec:
  assumes "0 \<le> q" "q \<le> 1"
  shows "quantile col q =
     Inr (if valid_cells col = [] then None else Some (spec_quantile (valid_cells col) q))"
  using assms by (simp add: quantile_def Let_def percentile_linear_spec)



lemma below_quantile_values: "(t, v) \<in> set (below_quantile s quant) \<Longrightarrow> v \<noteq> None"
  by (auto simp: below_quantile_def float_less_def split: option.splits)


lemma group_sums_lookup:
  "group_sums acc s k =
     (let rows = filter (\<lambda>row. month_key row = Some k) s
      in if rows = [] then acc k
         else Some (case acc k of
                      None \<Rightarrow> (sum_list (valid_cells (map snd rows)), length (valid_cells (map snd rows)))
                    | Some (sm, cnt) \<Rightarrow> (sm + sum_list (valid_cells (map snd rows)),
                                       cnt + length (valid_cells (map snd rows)))))"
proof (induction s arbitrary: acc)
  case Nil
  show ?case by simp
next
  case (Cons row rest)
  show ?case
  proof (cases "month_key row")
    case None
    then show ?thesis by (simp add: Cons.IH Let_def)
  next
    case (Some k')
    show ?thesis
    proof (cases "k' = k")
      case False
      then have "k \<noteq> k'" by simp
      with Some show ?thesis by (simp add: Cons.IH Let_def)
    next
      case True
      obtain t v where row: "row = (t, v)" by (cases row)
      show ?thesis using Some True
        by (cases v; cases "acc k")
           (auto simp: Cons.IH row Let_def add_to_group_def valid_cells_simps split: prod.splits)
    qed
  qed
qed

lemma group_sums_empty:
  "group_sums Map.empty s k =
     (if filter (\<lambda>row. month_key row = Some k) s = [] then None
      else Some (sum_list (month_values k s), length (month_values k s)))"
  by (simp add: group_sums_lookup month_values_def Let_def)

lemma set_map_filter: "set (List.map_filter f xs) = {y. \<exists>x \<in> set xs. f x = Some y}"
  by (induction xs) (auto simp: List.map_filter_simps split: option.splits)

lemma month_key_filter_nonempty:
  "k \<in> set (List.map_filter month_key s) \<longleftrightarrow> filter (\<lambda>row. month_key row = Some k) s \<noteq> []"
  by (auto simp: set_map_filter filter_empty_conv)

lemma groupby_month_mean_groups:
  "groupby_month_mean s =
     map (\<lambda>k. (k, if month_values k s = [] then None else Some (mean (month_values k s))))
       (sort (remdups (List.map_filter month_key s)))"
  unfolding groupby_month_mean_def Let_def
proof (rule map_filter_all_Some, rule ballI)
  fix k assume "k \<in> set (sort (remdups (List.map_filter month_key s)))"
  then have "filter (\<lambda>row. month_key row = Some k) s \<noteq> []"
    by (simp add: month_key_filter_nonempty)
  then show "map_option (\<lambda>sc. (k, mean_cell sc)) (group_sums Map.empty s k)
      = Some (k, if month_values k s = [] then None else Some (mean (month_values k s)))"
    by (simp add: group_sums_empty mean_cell_def mean_def)
qed

lemma groupby_month_mean_keys:
  "map fst (groupby_month_mean s) = sort (remdups (List.map_filter month_key s))"
  by (simp add: groupby_month_mean_groups comp_def)

lemma month_values_retained_nonempty:
  assumes "k \<in> set (List.map_filter month_key (below_quantile s quant))"
  shows "month_values k (below_quantile s quant) \<noteq> []"
proof -
  from assms obtain row where r: "row \<in> set (below_quantile s quant)" "month_key row = Some k"
    by (auto simp: set_map_filter)
  obtain t v where row: "row = (t, v)" by (cases row)
  with r below_quantile_values obtain x where "v = Some x" by blast
  with r row have "x \<in> set (month_values k (below_quantile s quant))"
    by (force simp: month_values_def valid_cells_def set_map_filter)
  then show ?thesis by auto
qed

lemma groupby_month_mean_retained:
  "groupby_month_mean (below_quantile s quant) =
     map (\<lambda>k. (k, Some (mean (month_values k (below_quantile s quant)))))
       (sort (remdups (List.map_filter month_key (below_quantile s quant))))"
  unfolding groupby_month_mean_groups
  by (rule map_cong) (simp_all add: month_values_retained_nonempty)



lemma observed_example_quantile: "quantile (map snd observed_example) (1 / 2) = Inr (Some (11 / 2))"
  by code_simp


lemma observed_example_monthly:
  "monthly_low_flow observed_example (1 / 2) = Inr [(1, Some (5 / 2)), (2, Some (10 / 3))]"
  by code_simp


text \<open>
  C4.  For a threshold in \<open>[0, 1]\<close> the pipeline returns a month-to-mean table whose keys
  are exactly the months having a retained row: a month with no row below the quantile has
  no entry at all, every entry is the mean of at least one retained value (never a missing
  or placeholder cell), and no month is listed twice.
\<close>

theorem months_without_rows_absent:
  assumes "0 \<le> q" and "q \<le> 1"
  shows "\<exists>quant dfm.
      quantile (map snd s) q = Inr quant
    \<and> monthly_low_flow s q = Inr dfm
    \<and> (\<forall>k. (\<exists>v. (k, v) \<in> set dfm)
             \<longleftrightarrow> (\<exists>row \<in> set (below_quantile s quant). month_key row = Some k))
    \<and> (\<forall>k. (\<forall>row \<in> set (below_quantile s quant). month_key row \<noteq> Some k)
             \<longrightarrow> k \<notin> fst ` set dfm)
    \<and> (\<forall>(k, v) \<in> set dfm. month_values k (below_quantile s quant) \<noteq> []
             \<and> v = Some (mean (month_values k (below_quantile s quant))))
    \<and> distinct (map fst dfm)"
proof -
  from assms obtain quant where qu: "quantile (map snd s) q = Inr quant"
    using quantile_spec by blast
  let ?dfq = "below_quantile s quant"
  let ?dfm = "groupby_month_mean ?dfq"
  have m: "monthly_low_flow s q = Inr ?dfm"
    by (simp add: monthly_low_flow_def qu)
  have keys: "fst ` set ?dfm = {k. \<exists>row \<in> set ?dfq. month_key row = Some k}"
    using groupby_month_mean_keys [of ?dfq] set_map_filter [of month_key ?dfq]
    by (metis set_map set_remdups set_sort)
  have a: "\<forall>k. (\<exists>v. (k, v) \<in> set ?dfm) \<longleftrightarrow> (\<exists>row \<in> set ?dfq. month_key row = Some k)"
    using keys by (force simp: image_iff)
  have b: "\<forall>k. (\<forall>row \<in> set ?dfq. month_key row \<noteq> Some k) \<longrightarrow> k \<notin> fst ` set ?dfm"
    using keys by auto
  have c: "\<forall>(k, v) \<in> set ?dfm. month_values k ?dfq \<noteq> [] \<and> v = Some (mean (month_values k ?dfq))"
    by (auto simp: groupby_month_mean_retained month_values_retained_nonempty)
  have d: "distinct (map fst ?dfm)"
    by (simp add: groupby_month_mean_keys)
  from qu m a b c d show ?thesis by blast
qed


theorem months_without_rows_absent_witness:
  "(0::rat) \<le> 1 / 2 \<and> (1 / 2 :: rat) \<le> 1
   \<and> Some 3 \<in> set (map month_key observed_example)
   \<and> list_all (\<lambda>row. month_key row \<noteq> Some 3) (below_quantile observed_example (Some (11 / 2)))
   \<and> monthly_low_flow observed_example (1 / 2) = Inr [(1, Some (5 / 2)), (2, Some (10 / 3))]
   \<and> 3 \<notin> fst ` set [(1 :: int, Some (5 / 2 :: rat)), (2, Some (10 / 3))]"
proof -
  have a: "(0::rat) \<le> 1 / 2" and b: "(1 / 2 :: rat) \<le> 1" by simp_all
  have i: "Some 3 \<in> set (map month_key observed_example)" by code_simp
  have r: "list_all (\<lambda>row. month_key row \<noteq> Some 3) (below_quantile observed_example (Some (11 / 2)))"
    by code_simp
  from months_without_rows_absent [OF a b, of observed_example]
  obtain quant dfm where qu: "quantile (map snd observed_example) (1 / 2) = Inr quant"
    and m: "monthly_low_flow observed_example (1 / 2) = Inr dfm"
    and ab: "\<forall>k. (\<forall>row \<in> set (below_quantile observed_example quant). month_key row \<noteq> Some k)
             \<longrightarrow> k \<notin> fst ` set dfm"
    by blast
  from qu have q': "quant = Some (11 / 2)" by (simp add: observed_example_quantile)
  from m have d': "dfm = [(1, Some (5 / 2)), (2, Some (10 / 3))]"
    by (simp add: observed_example_monthly)
  from ab r have "3 \<notin> fst ` set dfm" unfolding q' by (simp add: list_all_iff)
  then show ?thesis using a b i r m unfolding d' by simp
qed

subsection \<open>Alignment: proofs\<close>

lemma anchor_dates_list:
  "anchor_dates =
     [Timestamp 2014 3 31 0 0 0, Timestamp 2014 4 30 0 0 0, Timestamp 2014 5 31 0 0 0,
      Timestamp 2014 6 30 0 0 0, Timestamp 2014 7 31 0 0 0, Timestamp 2014 8 31 0 0 0,
      Timestamp 2014 9 30 0 0 0, Timestamp 2014 10 31 0 0 0, Timestamp 2014 11 30 0 0 0,
      Timestamp 2014 12 31 0 0 0]"
  by code_simp

lemma length_anchor_dates: "length anchor_dates = 10"
  by (simp add: anchor_dates_list)

lemma length_groupby_month_mean:
  "length (groupby_month_mean dfq) = card {k. \<exists>row \<in> set dfq. month_key row = Some k}"
proof -
  have "length (groupby_month_mean dfq) = length (map fst (groupby_month_mean dfq))" by simp
  also have "\<dots> = card (set (List.map_filter month_key dfq))"
    unfolding groupby_month_mean_keys by (simp add: length_remdups_card_conv)
  finally show ?thesis by (simp add: set_map_filter)
qed

text \<open>
  C9.  The anchors are the ten month ends 2014-03-31, ..., 2014-12-31.  The assignment
  succeeds exactly when the monthly table has ten rows, that is when ten distinct months
  have retained rows, and otherwise raises \<^verbatim>\<open>ValueError\<close>; on success row \<open>i\<close> of the
  table keeps its mean and gets anchor \<open>i\<close>, whatever its month key was.
\<close>

theorem alignment_by_position:
  "anchor_dates =
     [Timestamp 2014 3 31 0 0 0, Timestamp 2014 4 30 0 0 0, Timestamp 2014 5 31 0 0 0,
      Timestamp 2014 6 30 0 0 0, Timestamp 2014 7 31 0 0 0, Timestamp 2014 8 31 0 0 0,
      Timestamp 2014 9 30 0 0 0, Timestamp 2014 10 31 0 0 0, Timestamp 2014 11 30 0 0 0,
      Timestamp 2014 12 31 0 0 0]
   \<and> align dfm = (if length dfm = 10 then Inr (zip anchor_dates (map snd dfm)) else Inl ValueError)
   \<and> (\<forall>r. align dfm = Inr r \<longrightarrow>
         length r = 10 \<and> (\<forall>i < 10. r ! i = (anchor_dates ! i, snd (dfm ! i))))
   \<and> (align (groupby_month_mean dfq) \<noteq> Inl ValueError
         \<longleftrightarrow> card {k. \<exists>row \<in> set dfq. month_key row = Some k} = 10)"
proof -
  have al: "align dfm = (if length dfm = 10 then Inr (zip anchor_dates (map snd dfm)) else Inl ValueError)"
    by (auto simp: align_def set_index_def length_anchor_dates)
  have pos: "\<forall>r. align dfm = Inr r \<longrightarrow>
         length r = 10 \<and> (\<forall>i < 10. r ! i = (anchor_dates ! i, snd (dfm ! i)))"
    unfolding al by (auto simp: length_anchor_dates)
  have ten: "(align (groupby_month_mean dfq) \<noteq> Inl ValueError)
         = (card {k. \<exists>row \<in> set dfq. month_key row = Some k} = 10)"
    by (auto simp: align_def set_index_def length_anchor_dates length_groupby_month_mean)
  from anchor_dates_list al pos ten show ?thesis by blast
qed

theorem alignment_by_position_witness:
  "align [(1, Some 11), (2, Some 12), (3, Some 13), (4, Some 14), (5, Some 15),
          (6, Some 16), (7, Some 17), (8, Some 18), (9, Some 19), (10, Some 20)]
     = Inr [(Timestamp 2014 3 31 0 0 0, Some 11), (Timestamp 2014 4 30 0 0 0, Some 12),
            (Timestamp 2014 5 31 0 0 0, Some 13), (Timestamp 2014 6 30 0 0 0, Some 14),
            (Timestamp 2014 7 31 0 0 0, Some 15), (Timestamp 2014 8 31 0 0 0, Some 16),
            (Timestamp 2014 9 30 0 0 0, Some 17), (Timestamp 2014 10 31 0 0 0, Some 18),
            (Timestamp 2014 11 30 0 0 0, Some 19), (Timestamp 2014 12 31 0 0 0, Some 20)]
   \<and> align [(1, Some (5 / 2)), (2, Some (10 / 3))] = Inl ValueError"
proof -
  let ?dfm = "[(1, Some 11), (2, Some 12), (3, Some 13), (4, Some 14), (5, Some 15),
          (6, Some 16), (7, Some 17), (8, Some 18), (9, Some 19), (10 :: int, Some (20 :: rat))]"
  let ?two = "[(1 :: int, Some (5 / 2 :: rat)), (2, Some (10 / 3))]"
  have "align ?dfm = Inr (zip anchor_dates (map snd ?dfm))"
    using alignment_by_position [of ?dfm "[]", THEN conjunct2, THEN conjunct1] by simp
  then have 1: "align ?dfm
     = Inr [(Timestamp 2014 3 31 0 0 0, Some 11), (Timestamp 2014 4 30 0 0 0, Some 12),
            (Timestamp 2014 5 31 0 0 0, Some 13), (Timestamp 2014 6 30 0 0 0, Some 14),
            (Timestamp 2014 7 31 0 0 0, Some 15), (Timestamp 2014 8 31 0 0 0, Some 16),
            (Timestamp 2014 9 30 0 0 0, Some 17), (Timestamp 2014 10 31 0 0 0, Some 18),
            (Timestamp 2014 11 30 0 0 0, Some 19), (Timestamp 2014 12 31 0 0 0, Some 20)]"
    by (simp add: anchor_dates_list)
  have 2: "align ?two = Inl ValueError"
    using alignment_by_position [of ?two "[]", THEN conjunct2, THEN conjunct1] by simp
  from 1 2 show ?thesis by simp
qed

subsection \<open>Segment filters and flux map: proofs\<close>

text \<open>
  C7.  A filter key that matches no row gives an empty result, not an error: an absent
  segment id or an absent (step, period) pair leaves the segment selection empty, an absent
  segment id leaves the reach distances empty, and an absent (step, period) pair leaves the
  flux map all NaN.
\<close>

theorem unmatched_filter_is_empty:
  "((\<forall>r \<in> set sfrdata. segment r \<noteq> seg) \<longrightarrow> select_segment sfrdata seg kk = [])
   \<and> ((\<forall>r \<in> set sfrdata. kstpkper r \<noteq> kk) \<longrightarrow> select_segment sfrdata seg kk = [])
   \<and> ((\<forall>r \<in> set rd. iseg r \<noteq> seg) \<longrightarrow> reach_distances rd seg = [])
   \<and> ((\<forall>r \<in> set sfrdata. kstpkper r \<noteq> kk)
         \<longrightarrow> flux_array nrow ncol sfrdata kk = Inr (nan_array nrow ncol))
   \<and> (select_segment sfrdata seg kk = []
         \<longleftrightarrow> (\<forall>r \<in> set sfrdata. \<not> (segment r = seg \<and> kstpkper r = kk)))
   \<and> ((\<forall>r \<in> set sfrdata. segment r \<noteq> 11) \<longrightarrow> seg11 sfrdata = [])
   \<and> ((\<forall>r \<in> set rd. iseg r \<noteq> 11) \<longrightarrow> dist_seg11 rd = [])"
proof -
  have 1: "(\<forall>r \<in> set sfrdata. segment r \<noteq> seg) \<longrightarrow> select_segment sfrdata seg kk = []"
    by (simp add: select_segment_def filter_empty_conv)
  have 2: "(\<forall>r \<in> set sfrdata. kstpkper r \<noteq> kk) \<longrightarrow> select_segment sfrdata seg kk = []"
    by (simp add: select_segment_def filter_empty_conv)
  have 3: "(\<forall>r \<in> set rd. iseg r \<noteq> seg) \<longrightarrow> reach_distances rd seg = []"
    by (simp add: reach_distances_def filter_empty_conv)
  have 4: "(\<forall>r \<in> set sfrdata. kstpkper r \<noteq> kk)
         \<longrightarrow> flux_array nrow ncol sfrdata kk = Inr (nan_array nrow ncol)"
    by (simp add: flux_array_def filter_empty_conv)
  have 5: "select_segment sfrdata seg kk = []
         \<longleftrightarrow> (\<forall>r \<in> set sfrdata. \<not> (segment r = seg \<and> kstpkper r = kk))"
    by (simp add: select_segment_def filter_empty_conv)
  have 6: "(\<forall>r \<in> set sfrdata. segment r \<noteq> 11) \<longrightarrow> seg11 sfrdata = []"
    by (simp add: seg11_def select_segment_def filter_empty_conv)
  have 7: "(\<forall>r \<in> set rd. iseg r \<noteq> 11) \<longrightarrow> dist_seg11 rd = []"
    by (simp add: dist_seg11_def reach_distances_def filter_empty_conv)
  from 1 2 3 4 5 6 7 show ?thesis by blast
qed

theorem unmatched_filter_is_empty_witness:
  "list_all (\<lambda>r. segment r \<noteq> 99) sfr_example
   \<and> select_segment sfr_example 99 (4, 6) = []
   \<and> list_all (\<lambda>r. kstpkper r \<noteq> (9, 9)) sfr_example
   \<and> select_segment sfr_example 11 (9, 9) = []
   \<and> flux_array 2 2 sfr_example (9, 9) = Inr [[None, None], [None, None]]
   \<and> reach_distances [\<lparr>iseg = 11, rchlen = Some 4\<rparr>, \<lparr>iseg = 12, rchlen = Some 6\<rparr>] 99 = []
   \<and> seg11 sfr_example = [(Some 5, Some 3), (Some 7, Some (- 2))]"
proof -
  have a: "\<forall>r \<in> set sfr_example. segment r \<noteq> 99" by (simp add: sfr_example_def)
  have b: "\<forall>r \<in> set sfr_example. kstpkper r \<noteq> (9, 9)" by (simp add: sfr_example_def)
  have c: "\<forall>r \<in> set [\<lparr>iseg = 11, rchlen = Some 4\<rparr>, \<lparr>iseg = 12, rchlen = Some 6\<rparr>]. iseg r \<noteq> 99"
    by simp
  have n: "nan_array 2 2 = [[None, None], [None, None]]"
    by (simp add: nan_array_def numeral_2_eq_2)
  have s: "seg11 sfr_example = [(Some 5, Some 3), (Some 7, Some (- 2))]"
    by (simp add: seg11_def select_segment_def sfr_example_def)
  from unmatched_filter_is_empty [of sfr_example 99 "(4, 6)"] a
  have 1: "select_segment sfr_example 99 (4, 6) = []" by blast
  from unmatched_filter_is_empty [of sfr_example 11 "(9, 9)" _ 2 2] b
  have 2: "select_segment sfr_example 11 (9, 9) = []"
    and 3: "flux_array 2 2 sfr_example (9, 9) = Inr (nan_array 2 2)" by blast+
  from unmatched_filter_is_empty [of _ 99 _ "[\<lparr>iseg = 11, rchlen = Some 4\<rparr>, \<lparr>iseg = 12, rchlen = Some 6\<rparr>]"] c
  have 4: "reach_distances [\<lparr>iseg = 11, rchlen = Some 4\<rparr>, \<lparr>iseg = 12, rchlen = Some 6\<rparr>] 99 = []"
    by blast
  from a b 1 2 3 4 n s show ?thesis by (simp add: list_all_iff)
qed

lemma length_assign_cells: "length (assign_cells arr ts) = length arr"
  by (induction arr ts rule: assign_cells.induct) simp_all

lemma assign_cells_untouched:
  assumes "\<forall>(r', c', v) \<in> set ts. (r', c') \<noteq> (r, c)"
  shows "assign_cells arr ts ! r ! c = arr ! r ! c"
  using assms
proof (induction arr ts rule: assign_cells.induct)
  case (1 arr)
  show ?case by simp
next
  case (2 arr r' c' v rest)
  then have ne: "(r', c') \<noteq> (r, c)" and rest: "\<forall>(r', c', v) \<in> set rest. (r', c') \<noteq> (r, c)"
    by auto
  have "arr[r' := (arr ! r')[c' := v]] ! r ! c = arr ! r ! c"
  proof (cases "r' = r")
    case True
    with ne have "c' \<noteq> c" by simp
    then show ?thesis using True
      by (cases "r < length arr") (simp_all add: nth_list_update list_update_beyond)
  next
    case False
    then show ?thesis
      by (cases "r < length arr") (simp_all add: nth_list_update list_update_beyond)
  qed
  then show ?case using "2.IH" [OF rest] by simp
qed

lemma norm_targets_covers:
  "norm_targets nrow ncol sel = Some ts \<Longrightarrow> (r, c, v) \<in> set ts \<Longrightarrow>
     \<exists>i j. (i, j, v) \<in> set sel \<and> norm_index nrow i = Some r \<and> norm_index ncol j = Some c"
proof (induction sel arbitrary: ts)
  case Nil
  then show ?case by simp
next
  case (Cons x sel)
  obtain i j w where x: "x = (i, j, w)" by (cases x)
  from Cons.prems(1) obtain r0 c0 ts0 where
    n: "norm_index nrow i = Some r0" "norm_index ncol j = Some c0"
       "norm_targets nrow ncol sel = Some ts0" and ts: "ts = (r0, c0, w) # ts0"
    by (auto simp: x split: option.splits)
  from Cons.prems(2) ts consider "(r, c, v) = (r0, c0, w)" | "(r, c, v) \<in> set ts0" by auto
  then show ?case
  proof cases
    case 1
    with n x show ?thesis by auto
  next
    case 2
    from Cons.IH [OF n(3) 2] show ?thesis by auto
  qed
qed

lemma mask_to_nan_cell:
  "r < length arr \<Longrightarrow> c < length (arr ! r) \<Longrightarrow>
   mask_to_nan P arr ! r ! c
     = (case arr ! r ! c of None \<Rightarrow> None | Some x \<Rightarrow> if P x then None else Some x)"
  by (simp add: mask_to_nan_def)

text \<open>
  C10.  In the decomposition of the flux array every cell is kept by at most one of the two
  derived arrays: the losing array keeps a cell iff its flux is strictly positive, the
  gaining array iff it is strictly negative, both keep the flux unchanged, and a cell whose
  flux is zero or missing is NaN in both.  In the array built from the reach table a cell
  that no selected reach names is missing.
\<close>

theorem losing_gaining_disjoint:
  "(\<forall>r < length arr. \<forall>c < length (arr ! r).
       (losing arr ! r ! c \<noteq> None \<longleftrightarrow> (\<exists>x. arr ! r ! c = Some x \<and> 0 < x))
     \<and> (gaining arr ! r ! c \<noteq> None \<longleftrightarrow> (\<exists>x. arr ! r ! c = Some x \<and> x < 0))
     \<and> (losing arr ! r ! c \<noteq> None \<longrightarrow> losing arr ! r ! c = arr ! r ! c)
     \<and> (gaining arr ! r ! c \<noteq> None \<longrightarrow> gaining arr ! r ! c = arr ! r ! c)
     \<and> \<not> (losing arr ! r ! c \<noteq> None \<and> gaining arr ! r ! c \<noteq> None)
     \<and> (arr ! r ! c = None \<or> arr ! r ! c = Some 0
           \<longrightarrow> losing arr ! r ! c = None \<and> gaining arr ! r ! c = None))
   \<and> (\<forall>grid. flux_array nrow ncol sfrdata kk = Inr grid \<longrightarrow>
         length grid = nrow \<and> (\<forall>row \<in> set grid. length row = ncol)
       \<and> (\<forall>r < nrow. \<forall>c < ncol.
             (\<forall>s \<in> set sfrdata. kstpkper s = kk \<longrightarrow>
                \<not> (norm_index nrow (row_i s) = Some r \<and> norm_index ncol (col_j s) = Some c))
             \<longrightarrow> grid ! r ! c = None))"
proof -
  have cells: "(losing arr ! r ! c \<noteq> None \<longleftrightarrow> (\<exists>x. arr ! r ! c = Some x \<and> 0 < x))
     \<and> (gaining arr ! r ! c \<noteq> None \<longleftrightarrow> (\<exists>x. arr ! r ! c = Some x \<and> x < 0))
     \<and> (losing arr ! r ! c \<noteq> None \<longrightarrow> losing arr ! r ! c = arr ! r ! c)
     \<and> (gaining arr ! r ! c \<noteq> None \<longrightarrow> gaining arr ! r ! c = arr ! r ! c)
     \<and> \<not> (losing arr ! r ! c \<noteq> None \<and> gaining arr ! r ! c \<noteq> None)
     \<and> (arr ! r ! c = None \<or> arr ! r ! c = Some 0
           \<longrightarrow> losing arr ! r ! c = None \<and> gaining arr ! r ! c = None)"
    if "r < length arr" "c < length (arr ! r)" for r c
    using that by (cases "arr ! r ! c") (auto simp: losing_def gaining_def mask_to_nan_cell)
  have grid: "length grid = nrow \<and> (\<forall>row \<in> set grid. length row = ncol)
       \<and> (\<forall>r < nrow. \<forall>c < ncol.
             (\<forall>s \<in> set sfrdata. kstpkper s = kk \<longrightarrow>
                \<not> (norm_index nrow (row_i s) = Some r \<and> norm_index ncol (col_j s) = Some c))
             \<longrightarrow> grid ! r ! c = None)"
    if g: "flux_array nrow ncol sfrdata kk = Inr grid" for grid
  proof -
    let ?sel = "map (\<lambda>r. (row_i r, col_j r, Qaquifer r)) (filter (\<lambda>r. kstpkper r = kk) sfrdata)"
    from g obtain ts where ts: "norm_targets nrow ncol ?sel = Some ts"
      and grid: "grid = assign_cells (nan_array nrow ncol) ts"
      by (auto simp: flux_array_def Let_def split: option.splits)
    have len: "length grid = nrow" by (simp add: grid length_assign_cells nan_array_def)
    have rows: "\<forall>row \<in> set (assign_cells a ts'). length row = ncol"
      if "\<forall>row \<in> set a. length row = ncol" for a ts'
      using that
    proof (induction a ts' rule: assign_cells.induct)
      case (1 arr)
      then show ?case by simp
    next
      case (2 arr r c v rest)
      have "\<forall>row \<in> set (arr[r := (arr ! r)[c := v]]). length row = ncol"
      proof (cases "r < length arr")
        case False
        then have "arr[r := (arr ! r)[c := v]] = arr" by (simp add: list_update_beyond)
        then show ?thesis using "2.prems" by simp
      next
        case True
        then have "length ((arr ! r)[c := v]) = ncol" using "2.prems" by simp
        moreover have "set (arr[r := (arr ! r)[c := v]]) \<subseteq> insert ((arr ! r)[c := v]) (set arr)"
          by (rule set_update_subset_insert)
        ultimately show ?thesis using "2.prems" by auto
      qed
      then show ?case using "2.IH" by simp
    qed
    have w: "\<forall>row \<in> set grid. length row = ncol"
      unfolding grid by (rule rows) (simp add: nan_array_def)
    have un: "grid ! r ! c = None"
      if rc: "r < nrow" "c < ncol"
        and free: "\<forall>s \<in> set sfrdata. kstpkper s = kk \<longrightarrow>
                \<not> (norm_index nrow (row_i s) = Some r \<and> norm_index ncol (col_j s) = Some c)"
      for r c
    proof -
      have "\<forall>(r', c', v) \<in> set ts. (r', c') \<noteq> (r, c)"
      proof (clarify)
        fix v assume "(r, c, v) \<in> set ts"
        from norm_targets_covers [OF ts this] obtain i j where
          "(i, j, v) \<in> set ?sel" "norm_index nrow i = Some r" "norm_index ncol j = Some c"
          by blast
        with free show False by auto
      qed
      then have "grid ! r ! c = nan_array nrow ncol ! r ! c"
        unfolding grid by (rule assign_cells_untouched)
      then show ?thesis using rc by (simp add: nan_array_def)
    qed
    from len w un show ?thesis by blast
  qed
  from cells grid show ?thesis by blast
qed


theorem losing_gaining_disjoint_witness:
  "flux_array 2 2 sfr_example (4, 6) = Inr [[Some 3, Some (- 2)], [Some 0, None]]
   \<and> losing [[Some 3, Some (- 2)], [Some 0, None]] = [[Some 3, None], [None, None]]
   \<and> gaining [[Some 3, Some (- 2)], [Some 0, None]] = [[None, Some (- 2)], [None, None]]
   \<and> losing [[Some 3, Some (- 2)], [Some 0, None]] ! 0 ! 0 = Some 3
   \<and> gaining [[Some 3, Some (- 2)], [Some 0, None]] ! 0 ! 0 = None
   \<and> losing [[Some 3, Some (- 2)], [Some 0, None]] ! 1 ! 0 = None
   \<and> gaining [[Some 3, Some (- 2)], [Some 0, None]] ! 1 ! 0 = None"
proof -
  let ?arr = "[[Some 3, Some (- 2)], [Some 0, None :: rat option]]"
  have f: "flux_array 2 2 sfr_example (4, 6) = Inr ?arr" by code_simp
  have l: "losing ?arr = [[Some 3, None], [None, None]]"
    by (simp add: losing_def mask_to_nan_def)
  have g: "gaining ?arr = [[None, Some (- 2)], [None, None]]"
    by (simp add: gaining_def mask_to_nan_def)
  have r0: "(0::nat) < length ?arr" and c0: "(0::nat) < length (?arr ! 0)"
    and r1: "(1::nat) < length ?arr" and c1: "(0::nat) < length (?arr ! 1)" by simp_all
  note cells = losing_gaining_disjoint [of ?arr 2 2 sfr_example "(4, 6)", THEN conjunct1, rule_format]
  have pos: "\<exists>x. ?arr ! 0 ! 0 = Some x \<and> 0 < x" by simp
  have zero: "?arr ! 1 ! 0 = None \<or> ?arr ! 1 ! 0 = Some 0" by simp
  from cells [OF r0 c0] pos have a: "losing ?arr ! 0 ! 0 = ?arr ! 0 ! 0"
    and b: "gaining ?arr ! 0 ! 0 = None" by blast+
  from cells [OF r1 c1] zero have c: "losing ?arr ! 1 ! 0 = None"
    and d: "gaining ?arr ! 1 ! 0 = None" by blast+
  from a have a': "losing ?arr ! 0 ! 0 = Some 3" by simp
  from f l g a' b c d show ?thesis by blast
qed

subsection \<open>Time mapper and the timestamp invariant: proofs\<close>

text \<open>
  The start date 2014-01-01 plus 59.5 days is 2014-03-01T12:00:00 (no rounding is involved
  at this input).
\<close>

lemma time_mapper_example:
  "time_mapper (Timestamp 2014 1 1 0 0 0) [Some (119 / 2)] = Inr [Some (Timestamp 2014 3 1 12 0 0)]"
  by code_simp


















end
